theory Spec2Isabelle
  imports Main "HOL-Library.AList" "HOL-Library.Multiset"
begin

section \<open>Python values and exceptions\<close>

text \<open>
  The exceptions the modelled functions raise or let through. A function that can raise
  returns \<open>pyerror + 'a\<close>, with \<open>Inl\<close> for the exception.
\<close>

datatype pyerror =
    KeyError string
  | TypeError
  | OSError
  | CalledProcessError
  | RuntimeError
  | ValidationError "string list"
  | DoesNotExist
  | MultipleObjectsReturned
  | IntegrityError

text \<open>
  A Python dict is an association list in insertion order: \<open>map_of\<close> is the lookup
  (\<open>d.get(k)\<close>), \<open>AList.update\<close> is \<open>d[k] = v\<close> (an existing key keeps its place,
  a new key goes to the end).
\<close>

section \<open>libs/common.py: grouping components\<close>

text \<open>A component is a dict from field names to strings.\<close>

type_synonym component = "(string \<times> string) list"

text \<open>\<open>itemgetter(key)(c)\<close>, that is \<open>c[key]\<close>: a missing key raises KeyError.\<close>

definition itemgetter :: "string \<Rightarrow> component \<Rightarrow> pyerror + string" where
  "itemgetter key c = (case map_of c key of None \<Rightarrow> Inl (KeyError key) | Some v \<Rightarrow> Inr v)"

text \<open>
  The key function applied along the input, as \<open>groupby\<close> does while it is consumed.
  The first component without the key raises; the exception leaves \<open>group_components\<close>
  and the partial result is dropped.
\<close>

fun keyed :: "string \<Rightarrow> component list \<Rightarrow> pyerror + (string \<times> component) list" where
  "keyed key [] = Inr []"
| "keyed key (c # cs) =
     (case itemgetter key c of
        Inl e \<Rightarrow> Inl e
      | Inr k \<Rightarrow> (case keyed key cs of Inl e \<Rightarrow> Inl e | Inr r \<Rightarrow> Inr ((k, c) # r)))"

text \<open>
  \<open>itertools.groupby\<close>: one \<open>(key, items)\<close> pair for each maximal run of consecutive
  elements with equal key.
\<close>

function groupby :: "('k \<times> 'a) list \<Rightarrow> ('k \<times> 'a list) list" where
  "groupby [] = []"
| "groupby ((k, x) # xs) =
     (k, x # map snd (takeWhile (\<lambda>p. fst p = k) xs)) # groupby (dropWhile (\<lambda>p. fst p = k) xs)"
  by pat_completeness auto
termination
  by (relation "measure length") (auto simp: less_Suc_eq_le length_dropWhile_le)

text \<open>\<open>result[key].append(i)\<close> on a \<open>defaultdict(list)\<close>.\<close>

definition dd_append :: "('k \<times> 'a list) list \<Rightarrow> 'k \<Rightarrow> 'a \<Rightarrow> ('k \<times> 'a list) list" where
  "dd_append result k i =
     AList.update k ((case map_of result k of None \<Rightarrow> [] | Some g \<Rightarrow> g) @ [i]) result"

text \<open>
  \<^verbatim>\<open>
  result = defaultdict(list)
  for key, items in groupby(components, key=itemgetter(key)):
      for i in items:
          result[key].append(i)
  return dict(result)
  \<close>
\<close>

definition group_components ::
  "component list \<Rightarrow> string \<Rightarrow> pyerror + (string \<times> component list) list" where
  "group_components components key =
     (case keyed key components of
        Inl e \<Rightarrow> Inl e
      | Inr kcs \<Rightarrow>
          Inr (fold (\<lambda>(k, items) result. fold (\<lambda>i r. dd_append r k i) items result)
                 (groupby kcs) []))"

text \<open>
  The two nested loops visit the keyed components one by one; \<open>flat\<close> is that single
  loop, used to reason about \<open>group_components\<close>.
\<close>

definition flat :: "('k \<times> 'a) list \<Rightarrow> ('k \<times> 'a list) list \<Rightarrow> ('k \<times> 'a list) list" where
  "flat kcs r0 = fold (\<lambda>(k, i) r. dd_append r k i) kcs r0"

text \<open>
  The input is pre-sorted in the sense the grouping needs: equal keys are contiguous, that
  is, once the run of a key has ended the key does not occur again.
\<close>

fun contiguous :: "'k list \<Rightarrow> bool" where
  "contiguous [] = True"
| "contiguous (k # ks) = (k \<notin> set (dropWhile (\<lambda>x. x = k) ks) \<and> contiguous ks)"

section \<open>libs/common.py: NVR strings\<close>

text \<open>
  \<open>"{name}-{version}-{release}".format(**component)\<close>: the fields are looked up in
  the order they occur in the format string, and the first one missing raises KeyError.
\<close>

definition format_nvr :: "component \<Rightarrow> pyerror + string" where
  "format_nvr component =
     (case map_of component ''name'' of
        None \<Rightarrow> Inl (KeyError ''name'')
      | Some n \<Rightarrow>
          (case map_of component ''version'' of
             None \<Rightarrow> Inl (KeyError ''version'')
           | Some v \<Rightarrow>
               (case map_of component ''release'' of
                  None \<Rightarrow> Inl (KeyError ''release'')
                | Some r \<Rightarrow> Inr (n @ ''-'' @ v @ ''-'' @ r))))"

text \<open>The loop of \<open>get_nvr_list_from_components\<close>, with \<open>nvr_list\<close> as accumulator.\<close>

fun nvr_loop :: "component list \<Rightarrow> string list \<Rightarrow> pyerror + string list" where
  "nvr_loop [] nvr_list = Inr nvr_list"
| "nvr_loop (component # rest) nvr_list =
     (case format_nvr component of
        Inl e \<Rightarrow> Inl e
      | Inr nvr \<Rightarrow> nvr_loop rest (nvr_list @ [nvr]))"

text \<open>
  \<open>components.get(comp_type)\<close> is \<open>None\<close> for a missing type, and iterating over
  \<open>None\<close> raises TypeError.
\<close>

definition get_nvr_list_from_components ::
  "(string \<times> component list) list \<Rightarrow> string \<Rightarrow> pyerror + string list" where
  "get_nvr_list_from_components components comp_type =
     (case map_of components comp_type of
        None \<Rightarrow> Inl TypeError
      | Some cs \<Rightarrow> nvr_loop cs [])"


text \<open>A component has the three fields of an NVR; a string is the NVR of a component.\<close>

definition has_nvr_fields :: "component \<Rightarrow> bool" where
  "has_nvr_fields c \<longleftrightarrow>
     map_of c ''name'' \<noteq> None \<and> map_of c ''version'' \<noteq> None \<and> map_of c ''release'' \<noteq> None"

definition is_nvr_of :: "component \<Rightarrow> string \<Rightarrow> bool" where
  "is_nvr_of c s \<longleftrightarrow>
     (\<exists>n v r. map_of c ''name'' = Some n \<and> map_of c ''version'' = Some v
        \<and> map_of c ''release'' = Some r \<and> s = n @ ''-'' @ v @ ''-'' @ r)"

section \<open>Properties of the grouping\<close>

lemma keyed_Inr:
  "keyed key cs = Inr kcs \<Longrightarrow> map snd kcs = cs \<and> (\<forall>p\<in>set kcs. map_of (snd p) key = Some (fst p))"
  by (induction cs arbitrary: kcs) (auto simp: itemgetter_def split: option.splits sum.splits)

lemma keyed_total:
  "\<forall>c\<in>set cs. map_of c key \<noteq> None \<Longrightarrow> \<exists>kcs. keyed key cs = Inr kcs"
  by (induction cs) (auto simp: itemgetter_def split: option.splits sum.splits)

lemma keyed_Inl:
  "keyed key cs = Inl e \<Longrightarrow> e = KeyError key \<and> (\<exists>c\<in>set cs. map_of c key = None)"
  by (induction cs) (auto simp: itemgetter_def split: option.splits sum.splits)

lemma pair_takeWhile:
  "map (Pair k \<circ> snd) (takeWhile (\<lambda>p. fst p = k) xs) = takeWhile (\<lambda>p. fst p = k) xs"
  by (induction xs) auto

lemma groupby_concat:
  "concat (map (\<lambda>(k, items). map (Pair k) items) (groupby kcs)) = kcs"
  by (induction kcs rule: groupby.induct) (auto simp: pair_takeWhile)

lemma fold_runs:
  "fold (\<lambda>(k, items) result. fold (\<lambda>i r. dd_append r k i) items result) runs r0 =
   fold (\<lambda>(k, i) r. dd_append r k i) (concat (map (\<lambda>(k, items). map (Pair k) items) runs)) r0"
proof (induction runs arbitrary: r0)
  case Nil
  show ?case by simp
next
  case (Cons run runs)
  obtain k items where run: "run = (k, items)" by (cases run)
  have "fold (\<lambda>i r. dd_append r k i) items r = fold (\<lambda>(k, i) r. dd_append r k i) (map (Pair k) items) r" for r
    by (induction items arbitrary: r) auto
  with Cons run show ?case by simp
qed

lemma dd_append_Nil: "dd_append [] k i = [(k, [i])]"
  by (simp add: dd_append_def)

lemma dd_append_Cons:
  "dd_append ((k', g) # r) k i = (if k' = k then (k, g @ [i]) # r else (k', g) # dd_append r k i)"
  by (simp add: dd_append_def)


lemma dd_append_distinct: "distinct (map fst r) \<Longrightarrow> distinct (map fst (dd_append r k i))"
  by (simp add: dd_append_def distinct_update)

lemma dd_append_map_of:
  "map_of (dd_append r k i) k' =
     (if k' = k then Some ((case map_of r k of None \<Rightarrow> [] | Some g \<Rightarrow> g) @ [i]) else map_of r k')"
  by (simp add: dd_append_def update_conv')

lemma dd_append_mset:
  "mset (concat (map snd (dd_append r k i))) = mset (concat (map snd r)) + {#i#}"
  by (induction r) (auto simp: dd_append_Nil dd_append_Cons)

lemma flat_distinct: "distinct (map fst r0) \<Longrightarrow> distinct (map fst (flat kcs r0))"
  unfolding flat_def by (induction kcs arbitrary: r0) (auto simp: dd_append_distinct)

lemma flat_mset:
  "mset (concat (map snd (flat kcs r0))) = mset (concat (map snd r0)) + mset (map snd kcs)"
  unfolding flat_def by (induction kcs arbitrary: r0) (auto simp: dd_append_mset)

lemma flat_map_of:
  "map_of (flat kcs r0) k =
     (if filter (\<lambda>p. fst p = k) kcs = [] then map_of r0 k
      else Some ((case map_of r0 k of None \<Rightarrow> [] | Some g \<Rightarrow> g) @ map snd (filter (\<lambda>p. fst p = k) kcs)))"
  unfolding flat_def
  by (induction kcs arbitrary: r0) (auto simp: dd_append_map_of split: option.splits)


lemma keyed_filter:
  "keyed key cs = Inr kcs \<Longrightarrow>
   map snd (filter (\<lambda>p. fst p = k) kcs) = filter (\<lambda>c. map_of c key = Some k) cs"
  by (induction cs arbitrary: kcs) (auto simp: itemgetter_def split: option.splits sum.splits)

lemma group_components_flat:
  "keyed key cs = Inr kcs \<Longrightarrow> group_components cs key = Inr (flat kcs [])"
  by (simp add: group_components_def fold_runs groupby_concat flat_def)

lemma group_components_groups:
  assumes "group_components cs key = Inr result"
  shows "distinct (map fst result)"
    and "mset (concat (map snd result)) = mset cs"
    and "map_of result k =
          (if \<exists>c\<in>set cs. map_of c key = Some k
           then Some (filter (\<lambda>c. map_of c key = Some k) cs) else None)"
proof -
  from assms obtain kcs where kcs: "keyed key cs = Inr kcs"
    by (auto simp: group_components_def split: sum.splits)
  with assms have result: "result = flat kcs []"
    by (simp add: group_components_flat)
  show "distinct (map fst result)"
    by (simp add: result flat_distinct)
  show "mset (concat (map snd result)) = mset cs"
    using keyed_Inr [OF kcs] by (simp add: result flat_mset)
  have "filter (\<lambda>p. fst p = k) kcs = [] \<longleftrightarrow> filter (\<lambda>c. map_of c key = Some k) cs = []"
    using keyed_filter [OF kcs, of k] by (metis map_is_Nil_conv)
  then show "map_of result k =
          (if \<exists>c\<in>set cs. map_of c key = Some k
           then Some (filter (\<lambda>c. map_of c key = Some k) cs) else None)"
    using keyed_filter [OF kcs, of k]
    by (auto simp: result flat_map_of filter_empty_conv)
qed

lemma group_components_total:
  "\<forall>c\<in>set cs. map_of c key \<noteq> None \<Longrightarrow> \<exists>result. group_components cs key = Inr result"
  using keyed_total [of cs key] by (auto simp: group_components_flat)


lemma dd_append_new: "k \<notin> fst ` set r \<Longrightarrow> dd_append r k i = r @ [(k, [i])]"
  by (induction r) (auto simp: dd_append_Nil dd_append_Cons)

lemma dd_append_last:
  "k \<notin> fst ` set r \<Longrightarrow> dd_append (r @ [(k, g)]) k i = r @ [(k, g @ [i])]"
  by (induction r) (auto simp: dd_append_Nil dd_append_Cons)

lemma fold_run_last:
  "k \<notin> fst ` set r \<Longrightarrow>
   fold (\<lambda>i r. dd_append r k i) items (r @ [(k, g)]) = r @ [(k, g @ items)]"
  by (induction items arbitrary: g) (auto simp: dd_append_last)

lemma fold_run_new:
  "k \<notin> fst ` set r \<Longrightarrow> items \<noteq> [] \<Longrightarrow>
   fold (\<lambda>i r. dd_append r k i) items r = r @ [(k, items)]"
  by (cases items) (auto simp: dd_append_new fold_run_last)

lemma fold_distinct_runs:
  "distinct (map fst runs) \<Longrightarrow> fst ` set runs \<inter> fst ` set r0 = {} \<Longrightarrow>
   \<forall>run\<in>set runs. snd run \<noteq> [] \<Longrightarrow>
   fold (\<lambda>(k, items) result. fold (\<lambda>i r. dd_append r k i) items result) runs r0 = r0 @ runs"
proof (induction runs arbitrary: r0)
  case Nil
  show ?case by simp
next
  case (Cons run runs)
  obtain k items where run: "run = (k, items)" by (cases run)
  from Cons.prems run have k: "k \<notin> fst ` set r0" "items \<noteq> []" by auto
  have "fst ` set runs \<inter> fst ` set (r0 @ [(k, items)]) = {}"
    using Cons.prems run by auto
  with Cons have "fold (\<lambda>(k, items) result. fold (\<lambda>i r. dd_append r k i) items result) runs
        (r0 @ [(k, items)]) = (r0 @ [(k, items)]) @ runs"
    by simp
  with k run show ?case by (simp add: fold_run_new)
qed

lemma groupby_keys: "fst ` set (groupby xs) \<subseteq> fst ` set xs"
proof (induction xs rule: groupby.induct)
  case 1
  show ?case by simp
next
  case (2 k x xs)
  have "set (dropWhile (\<lambda>p. fst p = k) xs) \<subseteq> set xs"
    by (auto dest: set_dropWhileD)
  with 2 show ?case by auto
qed

lemma groupby_nonempty: "\<forall>run\<in>set (groupby xs). snd run \<noteq> []"
  by (induction xs rule: groupby.induct) auto

lemma groupby_items: "concat (map snd (groupby xs)) = map snd xs"
proof (induction xs rule: groupby.induct)
  case 1
  show ?case by simp
next
  case (2 k x xs)
  have "map snd (takeWhile (\<lambda>p. fst p = k) xs) @ map snd (dropWhile (\<lambda>p. fst p = k) xs) = map snd xs"
    by (simp flip: map_append)
  with 2 show ?case by simp
qed

lemma contiguous_dropWhile: "contiguous ks \<Longrightarrow> contiguous (dropWhile P ks)"
  by (induction ks) auto

lemma groupby_distinct: "contiguous (map fst xs) \<Longrightarrow> distinct (map fst (groupby xs))"
proof (induction xs rule: groupby.induct)
  case 1
  show ?case by simp
next
  case (2 k x xs)
  have m: "map fst (dropWhile (\<lambda>p. fst p = k) xs) = dropWhile (\<lambda>x. x = k) (map fst xs)"
    by (simp add: dropWhile_map comp_def)
  from "2.prems" have "contiguous (map fst (dropWhile (\<lambda>p. fst p = k) xs))"
    by (simp add: m contiguous_dropWhile)
  with 2 have d: "distinct (map fst (groupby (dropWhile (\<lambda>p. fst p = k) xs)))" by simp
  from "2.prems" have "k \<notin> fst ` set (dropWhile (\<lambda>p. fst p = k) xs)"
    using m by (metis contiguous.simps(2) list.simps(9) fst_conv set_map)
  with groupby_keys [of "dropWhile (\<lambda>p. fst p = k) xs"]
  have "k \<notin> fst ` set (groupby (dropWhile (\<lambda>p. fst p = k) xs))" by blast
  with d show ?case by simp
qed

lemma keyed_keys:
  "keyed key cs = Inr kcs \<Longrightarrow> map (\<lambda>c. map_of c key) cs = map (Some \<circ> fst) kcs"
  by (induction cs arbitrary: kcs) (auto simp: itemgetter_def split: option.splits sum.splits)

lemma contiguous_map_inj: "inj f \<Longrightarrow> contiguous (map f ks) = contiguous ks"
proof (induction ks)
  case Nil
  show ?case by simp
next
  case (Cons k ks)
  have "dropWhile (\<lambda>x. x = f k) (map f ks) = map f (dropWhile (\<lambda>x. x = k) ks)"
    using Cons.prems by (simp add: dropWhile_map comp_def inj_eq)
  with Cons show ?case by (auto simp: inj_eq)
qed

lemma group_components_contiguous:
  assumes "group_components cs key = Inr result"
    and "contiguous (map (\<lambda>c. map_of c key) cs)"
  shows "concat (map snd result) = cs"
proof -
  from assms obtain kcs where kcs: "keyed key cs = Inr kcs"
    by (auto simp: group_components_def split: sum.splits)
  from assms(2) have "contiguous (map Some (map fst kcs))"
    by (simp add: keyed_keys [OF kcs])
  then have "contiguous (map fst kcs)"
    using contiguous_map_inj [of Some "map fst kcs"] by simp
  then have "distinct (map fst (groupby kcs))" by (rule groupby_distinct)
  then have "fold (\<lambda>(k, items) result. fold (\<lambda>i r. dd_append r k i) items result) (groupby kcs) []
      = [] @ groupby kcs"
    by (intro fold_distinct_runs) (simp_all add: groupby_nonempty)
  with assms(1) kcs have "result = groupby kcs"
    by (simp add: group_components_def)
  then show ?thesis
    using keyed_Inr [OF kcs] by (simp add: groupby_items)
qed

text \<open>
  Claim C3. For every list of component records that all carry the grouping key and in which
  equal key values are contiguous (a pre-sorted list), \<open>group_components\<close> returns a dict
  whose groups partition the input: the keys are pairwise different, the groups together hold
  exactly the input records with their multiplicities (none lost, none duplicated), each
  group holds the records of its key in input order, and the groups in dict order, one after
  the other, are the input list itself.
\<close>

theorem group_components_partition:
  assumes "\<forall>c\<in>set components. map_of c key \<noteq> None"
    and "contiguous (map (\<lambda>c. map_of c key) components)"
  shows "\<exists>result. group_components components key = Inr result
           \<and> distinct (map fst result)
           \<and> mset (concat (map snd result)) = mset components
           \<and> (\<forall>(k, g)\<in>set result. g = filter (\<lambda>c. map_of c key = Some k) components)
           \<and> concat (map snd result) = components"
proof -
  from assms(1) obtain result where r: "group_components components key = Inr result"
    using group_components_total by blast
  have "g = filter (\<lambda>c. map_of c key = Some k) components" if "(k, g) \<in> set result" for k g
  proof -
    from that have "map_of result k = Some g"
      using group_components_groups(1) [OF r] by simp
    then show ?thesis
      using group_components_groups(3) [OF r, of k] by (simp split: if_splits)
  qed
  with r group_components_groups(1,2) [OF r] group_components_contiguous [OF r assms(2)]
  show ?thesis by auto
qed

theorem group_components_partition_witness:
  "list_all (\<lambda>c. map_of c ''type'' \<noteq> None)
      [[(''name'', ''semver''), (''type'', ''go-package'')],
       [(''name'', ''csv''), (''type'', ''go-package'')],
       [(''name'', ''umd''), (''type'', ''yarn'')]]
   \<and> contiguous (map (\<lambda>c. map_of c ''type'')
        [[(''name'', ''semver''), (''type'', ''go-package'')],
         [(''name'', ''csv''), (''type'', ''go-package'')],
         [(''name'', ''umd''), (''type'', ''yarn'')]])
   \<and> (\<exists>result. group_components
          [[(''name'', ''semver''), (''type'', ''go-package'')],
           [(''name'', ''csv''), (''type'', ''go-package'')],
           [(''name'', ''umd''), (''type'', ''yarn'')]] ''type'' = Inr result
        \<and> distinct (map fst result)
        \<and> concat (map snd result) =
           [[(''name'', ''semver''), (''type'', ''go-package'')],
            [(''name'', ''csv''), (''type'', ''go-package'')],
            [(''name'', ''umd''), (''type'', ''yarn'')]])"
proof -
  let ?cs = "[[(''name'', ''semver''), (''type'', ''go-package'')],
              [(''name'', ''csv''), (''type'', ''go-package'')],
              [(''name'', ''umd''), (''type'', ''yarn'')]]"
  have h1: "\<forall>c\<in>set ?cs. map_of c ''type'' \<noteq> None" by simp
  have h2: "contiguous (map (\<lambda>c. map_of c ''type'') ?cs)" by simp
  have l: "list_all (\<lambda>c. map_of c ''type'' \<noteq> None) ?cs" by simp
  from group_components_partition [OF h1 h2] l h2 show ?thesis by blast
qed

text \<open>
  Claim C4, as the code has it. \<open>group_components\<close> appends every run of \<open>groupby\<close> to
  the list stored under the run's key, so a key that comes back after another key goes on
  filling the group it already has. For every input whose records all carry the key, sorted
  or not, the result has exactly one group for each key value that occurs, and that group is
  the list of all records with that value, in input order.
\<close>

theorem group_components_one_group_per_key:
  assumes "\<forall>c\<in>set components. map_of c key \<noteq> None"
  shows "\<exists>result. group_components components key = Inr result
           \<and> distinct (map fst result)
           \<and> (\<forall>k. map_of result k =
                 (if \<exists>c\<in>set components. map_of c key = Some k
                  then Some (filter (\<lambda>c. map_of c key = Some k) components) else None))"
proof -
  from assms obtain result where r: "group_components components key = Inr result"
    using group_components_total by blast
  with group_components_groups(1,3) [OF r] show ?thesis by blast
qed

theorem group_components_one_group_per_key_witness:
  "list_all (\<lambda>c. map_of c ''type'' \<noteq> None)
      [[(''name'', ''semver''), (''type'', ''go-package'')],
       [(''name'', ''go-syslog''), (''type'', ''gomod'')],
       [(''name'', ''csv''), (''type'', ''go-package'')]]
   \<and> (\<exists>result. group_components
          [[(''name'', ''semver''), (''type'', ''go-package'')],
           [(''name'', ''go-syslog''), (''type'', ''gomod'')],
           [(''name'', ''csv''), (''type'', ''go-package'')]] ''type'' = Inr result
        \<and> distinct (map fst result)
        \<and> map_of result ''go-package'' =
            Some [[(''name'', ''semver''), (''type'', ''go-package'')],
                  [(''name'', ''csv''), (''type'', ''go-package'')]])"
proof -
  let ?cs = "[[(''name'', ''semver''), (''type'', ''go-package'')],
              [(''name'', ''go-syslog''), (''type'', ''gomod'')],
              [(''name'', ''csv''), (''type'', ''go-package'')]]"
  have h: "\<forall>c\<in>set ?cs. map_of c ''type'' \<noteq> None" by simp
  from group_components_one_group_per_key [OF h] obtain result where
    r: "group_components ?cs ''type'' = Inr result" "distinct (map fst result)"
    and g: "\<And>k. map_of result k =
                 (if \<exists>c\<in>set ?cs. map_of c ''type'' = Some k
                  then Some (filter (\<lambda>c. map_of c ''type'' = Some k) ?cs) else None)"
    by blast
  have "map_of result ''go-package'' =
            Some [[(''name'', ''semver''), (''type'', ''go-package'')],
                  [(''name'', ''csv''), (''type'', ''go-package'')]]"
    by (simp add: g)
  moreover have "list_all (\<lambda>c. map_of c ''type'' \<noteq> None) ?cs" by simp
  ultimately show ?thesis using r by blast
qed

text \<open>
  Claim C4, as stated, at the first three records of the docstring's example: the key
  \<open>go-package\<close> occurs before and after \<open>gomod\<close>, so the input is not contiguous, and
  the two \<open>go-package\<close> records come out in one group, not in two.
\<close>

theorem group_components_noncontiguous_merged:
  "\<not> contiguous (map (\<lambda>c. map_of c ''type'')
        [[(''name'', ''semver''), (''type'', ''go-package'')],
         [(''name'', ''go-syslog''), (''type'', ''gomod'')],
         [(''name'', ''csv''), (''type'', ''go-package'')]])
   \<and> group_components
        [[(''name'', ''semver''), (''type'', ''go-package'')],
         [(''name'', ''go-syslog''), (''type'', ''gomod'')],
         [(''name'', ''csv''), (''type'', ''go-package'')]] ''type''
     = Inr [(''go-package'', [[(''name'', ''semver''), (''type'', ''go-package'')],
                              [(''name'', ''csv''), (''type'', ''go-package'')]]),
            (''gomod'', [[(''name'', ''go-syslog''), (''type'', ''gomod'')]])]"
  by (simp add: group_components_def itemgetter_def dd_append_def)

section \<open>Properties of the NVR list\<close>

lemma format_nvr_ok: "has_nvr_fields c \<Longrightarrow> \<exists>s. format_nvr c = Inr s \<and> is_nvr_of c s"
  by (auto simp: has_nvr_fields_def is_nvr_of_def format_nvr_def)

lemma format_nvr_missing:
  "\<not> has_nvr_fields c \<Longrightarrow> \<exists>f\<in>{''name'', ''version'', ''release''}. format_nvr c = Inl (KeyError f)"
  by (auto simp: has_nvr_fields_def format_nvr_def split: option.splits)

lemma nvr_loop_ok:
  "\<forall>c\<in>set cs. has_nvr_fields c \<Longrightarrow>
   \<exists>out. nvr_loop cs acc = Inr (acc @ out) \<and> list_all2 is_nvr_of cs out"
proof (induction cs arbitrary: acc)
  case Nil
  then show ?case by simp
next
  case (Cons c cs)
  then have "has_nvr_fields c" by simp
  then obtain s where s: "format_nvr c = Inr s" "is_nvr_of c s"
    using format_nvr_ok by blast
  from Cons.prems have "\<forall>c\<in>set cs. has_nvr_fields c" by simp
  from Cons.IH [OF this, of "acc @ [s]"] obtain out where
    out: "nvr_loop cs (acc @ [s]) = Inr ((acc @ [s]) @ out)" "list_all2 is_nvr_of cs out"
    by blast
  show ?case
  proof (intro exI conjI)
    show "nvr_loop (c # cs) acc = Inr (acc @ (s # out))" using s out by simp
    show "list_all2 is_nvr_of (c # cs) (s # out)" using s out by simp
  qed
qed

lemma nvr_loop_missing:
  "\<exists>c\<in>set cs. \<not> has_nvr_fields c \<Longrightarrow>
   \<exists>f\<in>{''name'', ''version'', ''release''}. nvr_loop cs acc = Inl (KeyError f)"
proof (induction cs arbitrary: acc)
  case Nil
  then show ?case by simp
next
  case (Cons c cs)
  show ?case
  proof (cases "has_nvr_fields c")
    case False
    from format_nvr_missing [OF this] show ?thesis by auto
  next
    case True
    then obtain s where s: "format_nvr c = Inr s"
      using format_nvr_ok by blast
    from True Cons.prems have "\<exists>c\<in>set cs. \<not> has_nvr_fields c" by auto
    from Cons.IH [OF this, of "acc @ [s]"] s show ?thesis by simp
  qed
qed

text \<open>
  Claim C7. When the dict has a group for the requested type, and every component of the
  group has the fields \<open>name\<close>, \<open>version\<close> and \<open>release\<close>,
  \<open>get_nvr_list_from_components\<close> returns the strings \<open>name-version-release\<close> of the
  components, in input order; when some component of the group lacks one of the three
  fields, it raises KeyError for one of them.
\<close>

theorem get_nvr_list_from_components_formats:
  assumes "map_of components comp_type = Some cs"
  shows "if \<forall>c\<in>set cs. has_nvr_fields c
         then \<exists>nvrs. get_nvr_list_from_components components comp_type = Inr nvrs
                \<and> list_all2 is_nvr_of cs nvrs
         else \<exists>f\<in>{''name'', ''version'', ''release''}.
                get_nvr_list_from_components components comp_type = Inl (KeyError f)"
proof -
  have eq: "get_nvr_list_from_components components comp_type = nvr_loop cs []"
    using assms by (simp add: get_nvr_list_from_components_def)
  show ?thesis
  proof (cases "\<forall>c\<in>set cs. has_nvr_fields c")
    case True
    show ?thesis
      unfolding eq if_P [OF True] using nvr_loop_ok [OF True, of "[]"] by simp
  next
    case False
    then have "\<exists>c\<in>set cs. \<not> has_nvr_fields c" by simp
    from nvr_loop_missing [OF this, of "[]"] show ?thesis
      unfolding eq if_not_P [OF False] .
  qed
qed

theorem get_nvr_list_from_components_formats_witness:
  "map_of [(''rpm'', [[(''name'', ''foo''), (''version'', ''1''), (''release'', ''2'')]])] ''rpm''
     = Some [[(''name'', ''foo''), (''version'', ''1''), (''release'', ''2'')]]
   \<and> get_nvr_list_from_components
        [(''rpm'', [[(''name'', ''foo''), (''version'', ''1''), (''release'', ''2'')]])] ''rpm''
     = Inr [''foo-1-2'']"
proof -
  let ?c = "[(''name'', ''foo''), (''version'', ''1''), (''release'', ''2'')]"
  have h: "map_of [(''rpm'', [?c])] ''rpm'' = Some [?c]" by simp
  have f: "\<forall>c\<in>set [?c]. has_nvr_fields c" by (simp add: has_nvr_fields_def)
  from get_nvr_list_from_components_formats [OF h] f
  obtain nvrs where n: "get_nvr_list_from_components [(''rpm'', [?c])] ''rpm'' = Inr nvrs"
      "list_all2 is_nvr_of [?c] nvrs"
    by (simp only: if_P) blast
  from n(2) have "nvrs = [''foo-1-2'']"
    by (auto simp: list_all2_Cons1 is_nvr_of_def)
  with n(1) h show ?thesis by simp
qed

text \<open>
  Claim C10. When the dict has no entry for the requested type, the lookup gives
  \<open>None\<close> and the loop over it raises TypeError: the function does not return an empty
  list.
\<close>

theorem get_nvr_list_from_components_missing_type:
  "map_of components comp_type = None \<Longrightarrow>
   get_nvr_list_from_components components comp_type = Inl TypeError"
  by (simp add: get_nvr_list_from_components_def)

theorem get_nvr_list_from_components_missing_type_witness:
  "map_of [(''rpm'', [[(''name'', ''foo''), (''version'', ''1''), (''release'', ''2'')]])] ''yarn''
     = None
   \<and> get_nvr_list_from_components
        [(''rpm'', [[(''name'', ''foo''), (''version'', ''1''), (''release'', ''2'')]])] ''yarn''
     = Inl TypeError"
proof -
  have h: "map_of [(''rpm'', [[(''name'', ''foo''), (''version'', ''1''), (''release'', ''2'')]])]
      ''yarn'' = None"
    by simp
  from get_nvr_list_from_components_missing_type [OF h] h show ?thesis by simp
qed

section \<open>libs/common.py: MIME type detection\<close>

text \<open>
  \<^verbatim>\<open>
  def get_mime_type(filepath):
      mime_type = mimetypes.MimeTypes().guess_type(filepath)[0]
      if not mime_type:
          try:
              mime_type = filetype.guess_mime(filepath)
          except TypeError:
              pass
      return mime_type
  \<close>
  The two library calls are parameters: \<open>guess_type\<close> is the lookup in the extension
  table, which gives a type or \<open>None\<close>; \<open>guess_mime\<close> is the sniffing of the file's
  first bytes, which gives a type or \<open>None\<close>, or raises (TypeError for an input it does
  not support, an OSError when the file cannot be opened or read).
\<close>

text \<open>\<open>not mime_type\<close>: \<open>None\<close> and the empty string are false.\<close>

definition falsy :: "string option \<Rightarrow> bool" where
  "falsy mime_type \<longleftrightarrow> mime_type = None \<or> mime_type = Some []"

definition get_mime_type ::
  "(string \<Rightarrow> string option) \<Rightarrow> (string \<Rightarrow> pyerror + string option) \<Rightarrow> string
     \<Rightarrow> pyerror + string option" where
  "get_mime_type guess_type guess_mime filepath =
     (let mime_type = guess_type filepath in
      if falsy mime_type then
        (case guess_mime filepath of
           Inr sniffed \<Rightarrow> Inr sniffed
         | Inl e \<Rightarrow> if e = TypeError then Inr mime_type else Inl e)
      else Inr mime_type)"

text \<open>
  Three library behaviours used below: an extension table that has no entry for the path,
  a sniffer that cannot open the file (\<open>open\<close> raises FileNotFoundError, an OSError),
  and a sniffer that rejects its input with TypeError.
\<close>

definition unknown_extension :: "string \<Rightarrow> string option" where
  "unknown_extension filepath = None"

definition file_not_found :: "string \<Rightarrow> pyerror + string option" where
  "file_not_found filepath = Inl OSError"

definition unsupported_input :: "string \<Rightarrow> pyerror + string option" where
  "unsupported_input filepath = Inl TypeError"

section \<open>Properties of the MIME type detection\<close>

text \<open>
  Claim C8, as stated, at a path with an unknown extension whose file does not exist: the
  OSError of the sniffing step is not caught by \<open>except TypeError\<close> and leaves
  \<open>get_mime_type\<close>.
\<close>

theorem get_mime_type_raises_OSError:
  "get_mime_type unknown_extension file_not_found ''/tmp/missing'' = Inl OSError"
  by (simp add: get_mime_type_def unknown_extension_def file_not_found_def falsy_def)

text \<open>
  Claim C8, as the code has it. \<open>get_mime_type\<close> swallows the TypeError of the sniffing
  step and no other error: it raises exactly when the extension table gives no type and the
  sniffing raises an error other than TypeError, and that error is the one it raises; when
  the table gives no type and the sniffing raises TypeError, it returns the table's absent
  result.
\<close>

theorem get_mime_type_swallows_TypeError_only:
  "(get_mime_type guess_type guess_mime filepath = Inl e
      \<longleftrightarrow> falsy (guess_type filepath) \<and> guess_mime filepath = Inl e \<and> e \<noteq> TypeError)
   \<and> (falsy (guess_type filepath) \<and> guess_mime filepath = Inl TypeError
      \<longrightarrow> get_mime_type guess_type guess_mime filepath = Inr (guess_type filepath))"
  by (auto simp: get_mime_type_def Let_def split: sum.splits)

theorem get_mime_type_swallows_TypeError_only_witness:
  "falsy (unknown_extension ''/tmp/data'') \<and> unsupported_input ''/tmp/data'' = Inl TypeError
   \<and> get_mime_type unknown_extension unsupported_input ''/tmp/data'' = Inr None"
proof -
  have h: "falsy (unknown_extension ''/tmp/data'') \<and> unsupported_input ''/tmp/data'' = Inl TypeError"
    by (simp add: falsy_def unknown_extension_def unsupported_input_def)
  with get_mime_type_swallows_TypeError_only [of unknown_extension unsupported_input "''/tmp/data''"]
  have "get_mime_type unknown_extension unsupported_input ''/tmp/data''
      = Inr (unknown_extension ''/tmp/data'')"
    by blast
  with h show ?thesis by (simp add: unknown_extension_def)
qed

section \<open>products/models.py: the store\<close>

text \<open>
  A table of the store is the list of its rows, in insertion order, with the next value of
  the primary key sequence. \<open>objects_get\<close> is \<open>QuerySet.get\<close>: it raises DoesNotExist
  when no row matches and MultipleObjectsReturned when more than one does.
\<close>

record 'row table =
  rows :: "'row list"
  next_id :: nat

definition objects_get :: "('row \<Rightarrow> bool) \<Rightarrow> 'row list \<Rightarrow> pyerror + 'row" where
  "objects_get matches rs =
     (case filter matches rs of
        [] \<Rightarrow> Inl DoesNotExist
      | [r] \<Rightarrow> Inr r
      | _ \<Rightarrow> Inl MultipleObjectsReturned)"

subsection \<open>Product and Release\<close>

record product =
  product_id :: nat
  product_name :: string
  display_name :: "string option"
  description :: "string option"
  family :: "string option"

record release =
  release_id :: nat
  release_product :: nat
  release_version :: string
  release_name :: string
  release_notes :: "string option"

text \<open>The constraint \<open>unique_product_version\<close> of \<open>Release.Meta\<close>, checked for a new row.\<close>

definition unique_product_version :: "release \<Rightarrow> release list \<Rightarrow> bool" where
  "unique_product_version new rs \<longleftrightarrow>
     \<not> list_ex (\<lambda>r. release_id r \<noteq> release_id new
                    \<and> release_product r = release_product new
                    \<and> release_version r = release_version new) rs"

definition release_create ::
  "nat \<Rightarrow> string \<Rightarrow> string \<Rightarrow> string option \<Rightarrow> release table
     \<Rightarrow> pyerror + (release \<times> release table)" where
  "release_create owner name version notes t =
     (let new = \<lparr>release_id = next_id t, release_product = owner, release_version = version,
                 release_name = name, release_notes = notes\<rparr>
      in if unique_product_version new (rows t)
         then Inr (new, t\<lparr>rows := rows t @ [new], next_id := Suc (next_id t)\<rparr>)
         else Inl IntegrityError)"

text \<open>
  \<open>self.release_set.update_or_create(name=name, version=version, defaults={"notes": notes})\<close>:
  the lookup is by product, name and version. A row found gets the defaults and is saved; when
  none is found a row is created from the lookup and the defaults, and an IntegrityError of
  the insert is raised again after the repeated lookup has found nothing. The result is the
  row and the flag \<open>created\<close>.
\<close>

definition update_or_create ::
  "product \<Rightarrow> string \<Rightarrow> string \<Rightarrow> string option \<Rightarrow> release table
     \<Rightarrow> pyerror + ((release \<times> bool) \<times> release table)" where
  "update_or_create self name version notes t =
     (case objects_get (\<lambda>r. release_product r = product_id self \<and> release_name r = name
                             \<and> release_version r = version) (rows t) of
        Inr obj \<Rightarrow>
          (let obj' = obj\<lparr>release_notes := notes\<rparr>
           in Inr ((obj', False),
                   t\<lparr>rows := map (\<lambda>r. if release_id r = release_id obj then obj' else r) (rows t)\<rparr>))
      | Inl e \<Rightarrow>
          if e = DoesNotExist then
            (case release_create (product_id self) name version notes t of
               Inr (obj, t') \<Rightarrow> Inr ((obj, True), t')
             | Inl e' \<Rightarrow> Inl e')
          else Inl e)"

text \<open>
  \<^verbatim>\<open>
  def add_release(self, name, version, notes=""):
      release, _ = self.release_set.update_or_create(...)
      return release
  \<close>
\<close>

definition add_release ::
  "product \<Rightarrow> string \<Rightarrow> string \<Rightarrow> string option \<Rightarrow> release table
     \<Rightarrow> pyerror + (release \<times> release table)" where
  "add_release self name version notes t =
     (case update_or_create self name version notes t of
        Inr ((release, created), t') \<Rightarrow> Inr (release, t')
      | Inl e \<Rightarrow> Inl e)"

text \<open>The joint string \<open>product-version\<close> of the comment on \<open>Release.name\<close>.\<close>

definition joint_name :: "product \<Rightarrow> string \<Rightarrow> string" where
  "joint_name p version = product_name p @ ''-'' @ version"

section \<open>Properties of add_release\<close>

lemma objects_get_Inr:
  "objects_get matches rs = Inr r \<Longrightarrow> r \<in> set rs \<and> matches r"
proof -
  assume a: "objects_get matches rs = Inr r"
  then have "filter matches rs = [r]"
    by (auto simp: objects_get_def split: list.splits)
  then have "r \<in> set (filter matches rs)" by simp
  then show ?thesis by simp
qed

lemma objects_get_Nil:
  "\<forall>r\<in>set rs. \<not> matches r \<Longrightarrow> objects_get matches rs = Inl DoesNotExist"
proof -
  assume "\<forall>r\<in>set rs. \<not> matches r"
  then have "filter matches rs = []" by (simp add: filter_empty_conv)
  then show ?thesis by (simp add: objects_get_def)
qed

text \<open>
  Claim C9, as stated, at the product \<open>rhel\<close> and an empty Release table:
  \<open>add_release\<close> called with the name \<open>rhel8\<close> and the version \<open>8.4\<close> creates the
  row under the name \<open>rhel8\<close>, which is not \<open>rhel-8.4\<close>.
\<close>

theorem add_release_keeps_given_name:
  "add_release \<lparr>product_id = 1, product_name = ''rhel'', display_name = None,
                 description = None, family = None\<rparr>
      ''rhel8'' ''8.4'' (Some []) \<lparr>rows = [], next_id = 1\<rparr>
     = Inr (\<lparr>release_id = 1, release_product = 1, release_version = ''8.4'',
              release_name = ''rhel8'', release_notes = Some []\<rparr>,
            \<lparr>rows = [\<lparr>release_id = 1, release_product = 1, release_version = ''8.4'',
                       release_name = ''rhel8'', release_notes = Some []\<rparr>],
             next_id = 2\<rparr>)
   \<and> ''rhel8'' \<noteq> joint_name \<lparr>product_id = 1, product_name = ''rhel'', display_name = None,
                 description = None, family = None\<rparr> ''8.4''"
  by (simp add: add_release_def update_or_create_def objects_get_def release_create_def
      unique_product_version_def joint_name_def Let_def numeral_2_eq_2)

text \<open>
  Claim C9, as the code has it. \<open>add_release\<close> takes the name from its caller: every
  Release it creates or updates is a row of the product with the given version, the given
  notes and the given name, so the name is \<open>product-version\<close> exactly when the caller
  passes that string. It does return a Release when the product has no release of that
  version yet.
\<close>

theorem add_release_stores_arguments:
  "(add_release self name version notes t = Inr (release, t')
      \<longrightarrow> release \<in> set (rows t')
        \<and> release_product release = product_id self
        \<and> release_version release = version
        \<and> release_notes release = notes
        \<and> release_name release = name
        \<and> (release_name release = joint_name self version \<longleftrightarrow> name = joint_name self version))
   \<and> ((\<forall>r\<in>set (rows t). \<not> (release_product r = product_id self \<and> release_version r = version))
      \<longrightarrow> (\<exists>release t'. add_release self name version notes t = Inr (release, t')))"
proof (rule conjI; rule impI)
  assume a: "add_release self name version notes t = Inr (release, t')"
  let ?m = "\<lambda>r. release_product r = product_id self \<and> release_name r = name
                             \<and> release_version r = version"
  show "release \<in> set (rows t')
        \<and> release_product release = product_id self
        \<and> release_version release = version
        \<and> release_notes release = notes
        \<and> release_name release = name
        \<and> (release_name release = joint_name self version \<longleftrightarrow> name = joint_name self version)"
  proof (cases "objects_get ?m (rows t)")
    case (Inr obj)
    from objects_get_Inr [OF Inr] have obj: "obj \<in> set (rows t)" "?m obj" by simp_all
    from a Inr have r: "release = obj\<lparr>release_notes := notes\<rparr>"
      and t': "rows t' = map (\<lambda>r. if release_id r = release_id obj then obj\<lparr>release_notes := notes\<rparr> else r) (rows t)"
      by (auto simp: add_release_def update_or_create_def Let_def)
    from obj(1) have "release \<in> set (rows t')"
      unfolding t' r by (force simp: image_iff)
    with obj(2) r show ?thesis by simp
  next
    case (Inl e)
    with a have c: "release_create (product_id self) name version notes t = Inr (release, t')"
      by (auto simp: add_release_def update_or_create_def split: if_splits sum.splits)
    then show ?thesis
      by (auto simp: release_create_def Let_def split: if_splits)
  qed
next
  assume n: "\<forall>r\<in>set (rows t). \<not> (release_product r = product_id self \<and> release_version r = version)"
  then have "objects_get (\<lambda>r. release_product r = product_id self \<and> release_name r = name
                             \<and> release_version r = version) (rows t) = Inl DoesNotExist"
    by (intro objects_get_Nil) simp
  moreover from n have "unique_product_version
      \<lparr>release_id = next_id t, release_product = product_id self, release_version = version,
                 release_name = name, release_notes = notes\<rparr> (rows t)"
    by (auto simp: unique_product_version_def list_ex_iff)
  ultimately show "\<exists>release t'. add_release self name version notes t = Inr (release, t')"
    by (simp add: add_release_def update_or_create_def release_create_def Let_def)
qed

theorem add_release_stores_arguments_witness:
  "add_release \<lparr>product_id = 1, product_name = ''rhel'', display_name = None,
                 description = None, family = None\<rparr>
      ''rhel-8.4'' ''8.4'' (Some []) \<lparr>rows = [], next_id = 1\<rparr>
     = Inr (\<lparr>release_id = 1, release_product = 1, release_version = ''8.4'',
              release_name = ''rhel-8.4'', release_notes = Some []\<rparr>,
            \<lparr>rows = [\<lparr>release_id = 1, release_product = 1, release_version = ''8.4'',
                       release_name = ''rhel-8.4'', release_notes = Some []\<rparr>],
             next_id = 2\<rparr>)
   \<and> release_name \<lparr>release_id = 1, release_product = 1, release_version = ''8.4'',
              release_name = ''rhel-8.4'', release_notes = Some []\<rparr>
     = joint_name \<lparr>product_id = 1, product_name = ''rhel'', display_name = None,
                 description = None, family = None\<rparr> ''8.4''"
proof -
  let ?p = "\<lparr>product_id = 1, product_name = ''rhel'', display_name = None,
                 description = None, family = None\<rparr>"
  let ?r = "\<lparr>release_id = 1, release_product = 1, release_version = ''8.4'',
              release_name = ''rhel-8.4'', release_notes = Some []\<rparr>"
  have run: "add_release ?p ''rhel-8.4'' ''8.4'' (Some []) \<lparr>rows = [], next_id = 1\<rparr>
      = Inr (?r, \<lparr>rows = [?r], next_id = 2\<rparr>)"
    by (simp add: add_release_def update_or_create_def objects_get_def release_create_def
        unique_product_version_def Let_def numeral_2_eq_2)
  have given: "''rhel-8.4'' = joint_name ?p ''8.4''"
    by (simp add: joint_name_def)
  from add_release_stores_arguments [of ?p "''rhel-8.4''" "''8.4''" "Some []"
      "\<lparr>rows = [], next_id = 1\<rparr>" ?r "\<lparr>rows = [?r], next_id = 2\<rparr>"] run given
  have "release_name ?r = joint_name ?p ''8.4''" by blast
  with run show ?thesis by blast
qed

section \<open>products/models.py: the two node tables\<close>

text \<open>
  The columns that \<open>MpttTreeNodeMixin\<close> declares. The columns that the MPTT library
  keeps for its range queries (left, right, tree id, level) take no part in the constraint
  and are left out.
\<close>

record tree_node =
  node_id :: nat
  node_name :: string
  parent :: "nat option"
  content_type :: nat
  object_id :: nat

datatype sqlval = Null | IntVal nat | TextVal string

definition node_field :: "string \<Rightarrow> tree_node \<Rightarrow> sqlval" where
  "node_field f n =
     (if f = ''parent'' then (case parent n of None \<Rightarrow> Null | Some p \<Rightarrow> IntVal p)
      else if f = ''object_id'' then IntVal (object_id n)
      else if f = ''content_type'' then IntVal (content_type n)
      else if f = ''name'' then TextVal (node_name n)
      else IntVal (node_id n))"

text \<open>
  \<open>models.UniqueConstraint(fields=[...])\<close>. The store refuses a row when another row
  has the same values in all the fields; as in SQL, a NULL is equal to nothing, so a row
  with a NULL in one of the fields is never refused.
\<close>

datatype constraint = UniqueConstraint "string list"

fun violates :: "constraint \<Rightarrow> tree_node \<Rightarrow> tree_node list \<Rightarrow> bool" where
  "violates (UniqueConstraint fs) n rs =
     list_ex (\<lambda>r. node_id r \<noteq> node_id n
                \<and> list_all (\<lambda>f. node_field f n \<noteq> Null \<and> node_field f r = node_field f n) fs) rs"

text \<open>
  \<open>Meta.constraints\<close> of the two models: \<open>ProductTreeNode\<close> declares
  \<open>unique_parent_content_object\<close>, \<open>ComponentTreeNode\<close> has no \<open>Meta\<close> of its own.
\<close>

definition ProductTreeNode_constraints :: "constraint list" where
  "ProductTreeNode_constraints = [UniqueConstraint [''parent'', ''object_id'']]"

definition ComponentTreeNode_constraints :: "constraint list" where
  "ComponentTreeNode_constraints = []"

text \<open>
  The operations of the store on a node table with the constraints \<open>cs\<close>: insert of a new
  row, update of the row with a given primary key, delete of a row with the cascade along
  \<open>parent\<close> (\<open>on_delete=models.CASCADE\<close>). The parent of a row must be a row of the table.
\<close>

definition parent_exists :: "tree_node \<Rightarrow> tree_node list \<Rightarrow> bool" where
  "parent_exists n rs = (case parent n of None \<Rightarrow> True | Some p \<Rightarrow> p \<in> node_id ` set rs)"

definition create_node ::
  "constraint list \<Rightarrow> string \<Rightarrow> nat option \<Rightarrow> nat \<Rightarrow> nat \<Rightarrow> tree_node table
     \<Rightarrow> pyerror + (tree_node \<times> tree_node table)" where
  "create_node cs name par ctype oid t =
     (let n = \<lparr>node_id = next_id t, node_name = name, parent = par, content_type = ctype,
               object_id = oid\<rparr>
      in if \<not> parent_exists n (rows t) then Inl IntegrityError
         else if list_ex (\<lambda>c. violates c n (rows t)) cs then Inl IntegrityError
         else Inr (n, t\<lparr>rows := rows t @ [n], next_id := Suc (next_id t)\<rparr>))"

definition save_node ::
  "constraint list \<Rightarrow> tree_node \<Rightarrow> tree_node table \<Rightarrow> pyerror + tree_node table" where
  "save_node cs n t =
     (if node_id n \<notin> node_id ` set (rows t) then Inl DoesNotExist
      else if \<not> parent_exists n (rows t) then Inl IntegrityError
      else if list_ex (\<lambda>c. violates c n (rows t)) cs then Inl IntegrityError
      else Inr (t\<lparr>rows := map (\<lambda>r. if node_id r = node_id n then n else r) (rows t)\<rparr>))"

fun subtree_ids :: "nat \<Rightarrow> nat list \<Rightarrow> tree_node list \<Rightarrow> nat list" where
  "subtree_ids 0 ids rs = ids"
| "subtree_ids (Suc fuel) ids rs =
     subtree_ids fuel
       (ids @ map node_id (filter (\<lambda>r. node_id r \<notin> set ids
                 \<and> (case parent r of None \<Rightarrow> False | Some p \<Rightarrow> p \<in> set ids)) rs)) rs"

definition delete_node :: "nat \<Rightarrow> tree_node table \<Rightarrow> tree_node table" where
  "delete_node i t =
     t\<lparr>rows := filter (\<lambda>r. node_id r \<notin> set (subtree_ids (length (rows t)) [i] (rows t))) (rows t)\<rparr>"

text \<open>The states of a node table that the operations reach from the empty table.\<close>

inductive reachable :: "constraint list \<Rightarrow> tree_node table \<Rightarrow> bool" for cs where
  empty: "reachable cs \<lparr>rows = [], next_id = 1\<rparr>"
| create: "reachable cs t \<Longrightarrow> create_node cs name par ctype oid t = Inr (n, t') \<Longrightarrow> reachable cs t'"
| save: "reachable cs t \<Longrightarrow> save_node cs n t = Inr t' \<Longrightarrow> reachable cs t'"
| delete: "reachable cs t \<Longrightarrow> reachable cs (delete_node i t)"

text \<open>
  The invariant as the claim states it: no two rows with equal parent and equal object id.
  And the invariant the constraint gives: no two rows with the same parent row and equal
  object id (two rows without parent are not compared).
\<close>

definition parent_object_unique :: "tree_node list \<Rightarrow> bool" where
  "parent_object_unique rs \<longleftrightarrow>
     (\<forall>a\<in>set rs. \<forall>b\<in>set rs.
        node_id a \<noteq> node_id b \<and> parent a = parent b \<longrightarrow> object_id a \<noteq> object_id b)"

definition siblings_unique :: "tree_node list \<Rightarrow> bool" where
  "siblings_unique rs \<longleftrightarrow>
     (\<forall>a\<in>set rs. \<forall>b\<in>set rs.
        node_id a \<noteq> node_id b \<and> parent a \<noteq> None \<and> parent a = parent b
          \<longrightarrow> object_id a \<noteq> object_id b)"

section \<open>Properties of the node tables\<close>

lemma not_violates_parent_object:
  assumes "\<not> violates (UniqueConstraint [''parent'', ''object_id'']) n rs"
    and "r \<in> set rs" and "node_id r \<noteq> node_id n" and "parent n \<noteq> None"
    and "parent r = parent n"
  shows "object_id r \<noteq> object_id n"
  using assms by (auto simp: list_ex_iff node_field_def split: option.splits)

lemma create_node_Inr:
  "create_node cs name par ctype oid t = Inr (n, t') \<Longrightarrow>
   node_id n = next_id t \<and> parent n = par \<and> object_id n = oid
   \<and> rows t' = rows t @ [n] \<and> next_id t' = Suc (next_id t)
   \<and> \<not> list_ex (\<lambda>c. violates c n (rows t)) cs"
  by (auto simp: create_node_def Let_def simp del: violates.simps split: if_splits)

lemma save_node_Inr:
  "save_node cs n t = Inr t' \<Longrightarrow>
   rows t' = map (\<lambda>r. if node_id r = node_id n then n else r) (rows t)
   \<and> next_id t' = next_id t
   \<and> \<not> list_ex (\<lambda>c. violates c n (rows t)) cs"
  by (auto simp: save_node_def simp del: violates.simps split: if_splits)

lemma ProductTreeNode_checked:
  "\<not> list_ex (\<lambda>c. violates c n rs) ProductTreeNode_constraints \<Longrightarrow>
   \<not> violates (UniqueConstraint [''parent'', ''object_id'']) n rs"
  unfolding ProductTreeNode_constraints_def list_ex_Cons_iff list_ex_Nil_iff by blast

lemma ids_below_next: "reachable cs t \<Longrightarrow> \<forall>r\<in>set (rows t). node_id r < next_id t"
proof (induction rule: reachable.induct)
  case empty
  show ?case by simp
next
  case (create t name par ctype oid n t')
  from create_node_Inr [OF create.hyps(2)] create.IH show ?case
    by (auto simp: less_Suc_eq)
next
  case (save t n t')
  have "node_id n \<in> node_id ` set (rows t)"
    using save.hyps(2) by (simp add: save_node_def del: violates.simps split: if_splits)
  with save_node_Inr [OF save.hyps(2)] save.IH show ?case
    by auto
next
  case (delete t i)
  then show ?case by (simp add: delete_node_def)
qed

lemma create_node_siblings_unique:
  assumes "create_node ProductTreeNode_constraints name par ctype oid t = Inr (n, t')"
    and "siblings_unique (rows t)" and "\<forall>r\<in>set (rows t). node_id r < next_id t"
  shows "siblings_unique (rows t')"
proof -
  note c = create_node_Inr [OF assms(1)]
  from c have n: "node_id n = next_id t" and t': "rows t' = rows t @ [n]"
    by blast+
  from c have "\<not> list_ex (\<lambda>c. violates c n (rows t)) ProductTreeNode_constraints"
    by blast
  then have v: "\<not> violates (UniqueConstraint [''parent'', ''object_id'']) n (rows t)"
    by (rule ProductTreeNode_checked)
  have new: "object_id r \<noteq> object_id n"
    if "r \<in> set (rows t)" "parent n \<noteq> None" "parent r = parent n" for r
  proof -
    from that(1) assms(3) n have "node_id r \<noteq> node_id n" by auto
    from not_violates_parent_object [OF v that(1) this that(2,3)] show ?thesis .
  qed
  show ?thesis
    unfolding siblings_unique_def t'
  proof (intro ballI impI)
    fix a b
    assume a: "a \<in> set (rows t @ [n])" and b: "b \<in> set (rows t @ [n])"
      and h: "node_id a \<noteq> node_id b \<and> parent a \<noteq> None \<and> parent a = parent b"
    consider "a \<in> set (rows t)" "b \<in> set (rows t)" | "a = n" "b \<in> set (rows t)"
      | "a \<in> set (rows t)" "b = n" | "a = n" "b = n"
      using a b by auto
    then show "object_id a \<noteq> object_id b"
    proof cases
      case 1
      with h assms(2) show ?thesis unfolding siblings_unique_def by blast
    next
      case 2
      with h new [of b] show ?thesis by metis
    next
      case 3
      with h new [of a] show ?thesis by metis
    next
      case 4
      with h show ?thesis by simp
    qed
  qed
qed

lemma save_node_siblings_unique:
  assumes "save_node ProductTreeNode_constraints n t = Inr t'" and "siblings_unique (rows t)"
  shows "siblings_unique (rows t')"
proof -
  note s = save_node_Inr [OF assms(1)]
  from s have t': "rows t' = map (\<lambda>r. if node_id r = node_id n then n else r) (rows t)"
    by blast
  from s have "\<not> list_ex (\<lambda>c. violates c n (rows t)) ProductTreeNode_constraints"
    by blast
  then have v: "\<not> violates (UniqueConstraint [''parent'', ''object_id'']) n (rows t)"
    by (rule ProductTreeNode_checked)
  have mem: "a = n \<or> (a \<in> set (rows t) \<and> node_id a \<noteq> node_id n)" if "a \<in> set (rows t')" for a
    using that unfolding t' by (auto split: if_splits)
  have new: "object_id r \<noteq> object_id n"
    if "r \<in> set (rows t)" "node_id r \<noteq> node_id n" "parent n \<noteq> None" "parent r = parent n" for r
    using v that by (rule not_violates_parent_object)
  show ?thesis
    unfolding siblings_unique_def
  proof (intro ballI impI)
    fix a b
    assume a: "a \<in> set (rows t')" and b: "b \<in> set (rows t')"
      and h: "node_id a \<noteq> node_id b \<and> parent a \<noteq> None \<and> parent a = parent b"
    from mem [OF a] mem [OF b]
    consider "a \<in> set (rows t)" "b \<in> set (rows t)" "node_id a \<noteq> node_id n" "node_id b \<noteq> node_id n"
      | "a = n" "b \<in> set (rows t)" "node_id b \<noteq> node_id n"
      | "a \<in> set (rows t)" "b = n" "node_id a \<noteq> node_id n" | "a = n" "b = n"
      by auto
    then show "object_id a \<noteq> object_id b"
    proof cases
      case 1
      with h assms(2) show ?thesis unfolding siblings_unique_def by blast
    next
      case 2
      with h new [of b] show ?thesis by metis
    next
      case 3
      with h new [of a] show ?thesis by metis
    next
      case 4
      with h show ?thesis by simp
    qed
  qed
qed

lemma delete_node_siblings_unique:
  "siblings_unique (rows t) \<Longrightarrow> siblings_unique (rows (delete_node i t))"
  by (auto simp: siblings_unique_def delete_node_def)

text \<open>
  Claim C5, as the code has it. Of the two node tables only \<open>ProductTreeNode\<close> declares
  the constraint on \<open>(parent, object_id)\<close>: in every state of the product node table that
  inserts, updates and deletes reach, no two rows with the same parent row have the same
  object id. \<open>ComponentTreeNode\<close> declares no constraint.
\<close>

theorem ProductTreeNode_siblings_unique:
  "reachable ProductTreeNode_constraints t \<Longrightarrow> siblings_unique (rows t)"
proof (induction rule: reachable.induct)
  case empty
  show ?case by (simp add: siblings_unique_def)
next
  case (create t name par ctype oid n t')
  from create.hyps(2) create.IH ids_below_next [OF create.hyps(1)]
  show ?case by (rule create_node_siblings_unique)
next
  case (save t n t')
  from save.hyps(2) save.IH show ?case by (rule save_node_siblings_unique)
next
  case (delete t i)
  then show ?case by (simp add: delete_node_siblings_unique)
qed

theorem ProductTreeNode_siblings_unique_witness:
  "reachable ProductTreeNode_constraints
     \<lparr>rows = [\<lparr>node_id = 1, node_name = ''rhel'', parent = None, content_type = 5, object_id = 1\<rparr>,
              \<lparr>node_id = 2, node_name = ''rhel-8.4'', parent = Some 1, content_type = 6, object_id = 1\<rparr>,
              \<lparr>node_id = 3, node_name = ''rhel-8.5'', parent = Some 1, content_type = 6, object_id = 2\<rparr>],
      next_id = 4\<rparr>
   \<and> siblings_unique
       [\<lparr>node_id = 1, node_name = ''rhel'', parent = None, content_type = 5, object_id = 1\<rparr>,
        \<lparr>node_id = 2, node_name = ''rhel-8.4'', parent = Some 1, content_type = 6, object_id = 1\<rparr>,
        \<lparr>node_id = 3, node_name = ''rhel-8.5'', parent = Some 1, content_type = 6, object_id = 2\<rparr>]
   \<and> create_node ProductTreeNode_constraints ''rhel-8.5'' (Some 1) 6 2
       \<lparr>rows = [\<lparr>node_id = 1, node_name = ''rhel'', parent = None, content_type = 5, object_id = 1\<rparr>,
                \<lparr>node_id = 2, node_name = ''rhel-8.4'', parent = Some 1, content_type = 6, object_id = 1\<rparr>,
                \<lparr>node_id = 3, node_name = ''rhel-8.5'', parent = Some 1, content_type = 6, object_id = 2\<rparr>],
        next_id = 4\<rparr>
     = Inl IntegrityError"
proof -
  let ?n1 = "\<lparr>node_id = 1, node_name = ''rhel'', parent = None, content_type = 5, object_id = 1\<rparr>"
  let ?n2 = "\<lparr>node_id = 2, node_name = ''rhel-8.4'', parent = Some 1, content_type = 6, object_id = 1\<rparr>"
  let ?n3 = "\<lparr>node_id = 3, node_name = ''rhel-8.5'', parent = Some 1, content_type = 6, object_id = 2\<rparr>"
  let ?cs = ProductTreeNode_constraints
  have c1: "create_node ?cs ''rhel'' None 5 1 \<lparr>rows = [], next_id = 1\<rparr>
      = Inr (?n1, \<lparr>rows = [?n1], next_id = 2\<rparr>)"
    by (simp add: create_node_def Let_def parent_exists_def ProductTreeNode_constraints_def)
  have c2: "create_node ?cs ''rhel-8.4'' (Some 1) 6 1 \<lparr>rows = [?n1], next_id = 2\<rparr>
      = Inr (?n2, \<lparr>rows = [?n1, ?n2], next_id = 3\<rparr>)"
    by (simp add: create_node_def Let_def parent_exists_def ProductTreeNode_constraints_def
        node_field_def)
  have c3: "create_node ?cs ''rhel-8.5'' (Some 1) 6 2 \<lparr>rows = [?n1, ?n2], next_id = 3\<rparr>
      = Inr (?n3, \<lparr>rows = [?n1, ?n2, ?n3], next_id = 4\<rparr>)"
    by (simp add: create_node_def Let_def parent_exists_def ProductTreeNode_constraints_def
        node_field_def)
  have c4: "create_node ?cs ''rhel-8.5'' (Some 1) 6 2 \<lparr>rows = [?n1, ?n2, ?n3], next_id = 4\<rparr>
      = Inl IntegrityError"
    by (simp add: create_node_def Let_def parent_exists_def ProductTreeNode_constraints_def
        node_field_def)
  have "reachable ?cs \<lparr>rows = [], next_id = 1\<rparr>" by (rule reachable.empty)
  from this c1 have "reachable ?cs \<lparr>rows = [?n1], next_id = 2\<rparr>" by (rule reachable.create)
  from this c2 have "reachable ?cs \<lparr>rows = [?n1, ?n2], next_id = 3\<rparr>" by (rule reachable.create)
  from this c3 have r: "reachable ?cs \<lparr>rows = [?n1, ?n2, ?n3], next_id = 4\<rparr>"
    by (rule reachable.create)
  from ProductTreeNode_siblings_unique [OF r] have "siblings_unique [?n1, ?n2, ?n3]" by simp
  with r c4 show ?thesis by blast
qed

text \<open>
  Claim C5, as stated, on the component node table: the same three inserts that the product
  node table refuses at the third go through, and the table holds two rows with the same
  parent row and the same object id.
\<close>

theorem ComponentTreeNode_siblings_not_unique:
  "reachable ComponentTreeNode_constraints
     \<lparr>rows = [\<lparr>node_id = 1, node_name = ''httpd'', parent = None, content_type = 7, object_id = 10\<rparr>,
              \<lparr>node_id = 2, node_name = ''zlib'', parent = Some 1, content_type = 7, object_id = 42\<rparr>,
              \<lparr>node_id = 3, node_name = ''zlib'', parent = Some 1, content_type = 7, object_id = 42\<rparr>],
      next_id = 4\<rparr>
   \<and> \<not> parent_object_unique
       [\<lparr>node_id = 1, node_name = ''httpd'', parent = None, content_type = 7, object_id = 10\<rparr>,
        \<lparr>node_id = 2, node_name = ''zlib'', parent = Some 1, content_type = 7, object_id = 42\<rparr>,
        \<lparr>node_id = 3, node_name = ''zlib'', parent = Some 1, content_type = 7, object_id = 42\<rparr>]
   \<and> \<not> siblings_unique
       [\<lparr>node_id = 1, node_name = ''httpd'', parent = None, content_type = 7, object_id = 10\<rparr>,
        \<lparr>node_id = 2, node_name = ''zlib'', parent = Some 1, content_type = 7, object_id = 42\<rparr>,
        \<lparr>node_id = 3, node_name = ''zlib'', parent = Some 1, content_type = 7, object_id = 42\<rparr>]"
proof -
  let ?n1 = "\<lparr>node_id = 1, node_name = ''httpd'', parent = None, content_type = 7, object_id = 10\<rparr>"
  let ?n2 = "\<lparr>node_id = 2, node_name = ''zlib'', parent = Some 1, content_type = 7, object_id = 42\<rparr>"
  let ?n3 = "\<lparr>node_id = 3, node_name = ''zlib'', parent = Some 1, content_type = 7, object_id = 42\<rparr>"
  let ?cs = ComponentTreeNode_constraints
  have c1: "create_node ?cs ''httpd'' None 7 10 \<lparr>rows = [], next_id = 1\<rparr>
      = Inr (?n1, \<lparr>rows = [?n1], next_id = 2\<rparr>)"
    by (simp add: create_node_def Let_def parent_exists_def ComponentTreeNode_constraints_def)
  have c2: "create_node ?cs ''zlib'' (Some 1) 7 42 \<lparr>rows = [?n1], next_id = 2\<rparr>
      = Inr (?n2, \<lparr>rows = [?n1, ?n2], next_id = 3\<rparr>)"
    by (simp add: create_node_def Let_def parent_exists_def ComponentTreeNode_constraints_def)
  have c3: "create_node ?cs ''zlib'' (Some 1) 7 42 \<lparr>rows = [?n1, ?n2], next_id = 3\<rparr>
      = Inr (?n3, \<lparr>rows = [?n1, ?n2, ?n3], next_id = 4\<rparr>)"
    by (simp add: create_node_def Let_def parent_exists_def ComponentTreeNode_constraints_def)
  have "reachable ?cs \<lparr>rows = [], next_id = 1\<rparr>" by (rule reachable.empty)
  from this c1 have "reachable ?cs \<lparr>rows = [?n1], next_id = 2\<rparr>" by (rule reachable.create)
  from this c2 have "reachable ?cs \<lparr>rows = [?n1, ?n2], next_id = 3\<rparr>" by (rule reachable.create)
  from this c3 have r: "reachable ?cs \<lparr>rows = [?n1, ?n2, ?n3], next_id = 4\<rparr>"
    by (rule reachable.create)
  have "\<not> parent_object_unique [?n1, ?n2, ?n3]"
    by (simp add: parent_object_unique_def)
  moreover have "\<not> siblings_unique [?n1, ?n2, ?n3]"
    by (simp add: siblings_unique_def)
  ultimately show ?thesis using r by blast
qed

text \<open>
  The constraint of the product node table compares no rows without parent: two root rows
  for the same object id are accepted, which is why the invariant is about rows with the
  same parent row.
\<close>

lemma ProductTreeNode_roots_not_compared:
  "reachable ProductTreeNode_constraints
     \<lparr>rows = [\<lparr>node_id = 1, node_name = ''rhel'', parent = None, content_type = 5, object_id = 1\<rparr>,
              \<lparr>node_id = 2, node_name = ''rhel'', parent = None, content_type = 5, object_id = 1\<rparr>],
      next_id = 3\<rparr>"
proof -
  let ?n1 = "\<lparr>node_id = 1, node_name = ''rhel'', parent = None, content_type = 5, object_id = 1\<rparr>"
  let ?n2 = "\<lparr>node_id = 2, node_name = ''rhel'', parent = None, content_type = 5, object_id = 1\<rparr>"
  let ?cs = ProductTreeNode_constraints
  have c1: "create_node ?cs ''rhel'' None 5 1 \<lparr>rows = [], next_id = 1\<rparr>
      = Inr (?n1, \<lparr>rows = [?n1], next_id = 2\<rparr>)"
    by (simp add: create_node_def Let_def parent_exists_def ProductTreeNode_constraints_def)
  have c2: "create_node ?cs ''rhel'' None 5 1 \<lparr>rows = [?n1], next_id = 2\<rparr>
      = Inr (?n2, \<lparr>rows = [?n1, ?n2], next_id = 3\<rparr>)"
    by (simp add: create_node_def Let_def parent_exists_def ProductTreeNode_constraints_def
        node_field_def)
  have "reachable ?cs \<lparr>rows = [], next_id = 1\<rparr>" by (rule reachable.empty)
  from this c1 have "reachable ?cs \<lparr>rows = [?n1], next_id = 2\<rparr>" by (rule reachable.create)
  from this c2 show ?thesis by (rule reachable.create)
qed

section \<open>packages/serializers.py: the import serializers\<close>

text \<open>The values of a task parameter dict, and the dict.\<close>

datatype pyval = PBool bool | PStr string | PInt int

type_synonym pydict = "(string \<times> pyval) list"

text \<open>
  The fields that \<open>NVRImportSerializer\<close> collects from its mixins, converted to their
  types: \<open>None\<close> is a field that is absent (or, for \<open>product_release\<close>, null).
\<close>

record import_data =
  license_scan :: "bool option"
  copyright_scan :: "bool option"
  srpm_dir :: "string option"
  product_release :: "string option"
  package_nvrs :: "string list"

text \<open>
  Modelled from the spec: the Task row (owner, correlation id of the external worker,
  task flow invoked, parameter payload); \<open>tasks/models.py\<close> is not among the sources.
  The fields are those \<open>fork_import_tasks\<close> passes to \<open>Task.objects.create\<close>.
\<close>

record task =
  task_id :: nat
  owner_id :: int
  meta_id :: string
  task_flow :: string
  params :: pydict

text \<open>A message published by \<open>app.send_task\<close>: the id of the Celery task, its name, its arguments.\<close>

record message =
  msg_id :: string
  msg_name :: string
  msg_args :: "pydict list"

record world =
  releases :: "release table"
  tasks :: "task table"
  sent :: "message list"

text \<open>
  \<open>app.send_task(name, args)\<close> draws a fresh id for the task, publishes the message and
  returns the id. The source of ids is the parameter \<open>uuid\<close>: \<open>uuid k\<close> is the id of
  the message published after \<open>k\<close> others.
\<close>

definition send_task ::
  "(nat \<Rightarrow> string) \<Rightarrow> string \<Rightarrow> pydict list \<Rightarrow> world \<Rightarrow> string \<times> world" where
  "send_task uuid name args w =
     (let i = uuid (length (sent w))
      in (i, w\<lparr>sent := sent w @ [\<lparr>msg_id = i, msg_name = name, msg_args = args\<rparr>]\<rparr>))"

definition Task_objects_create ::
  "int \<Rightarrow> string \<Rightarrow> string \<Rightarrow> pydict \<Rightarrow> world \<Rightarrow> task \<times> world" where
  "Task_objects_create owner meta flow ps w =
     (let t = \<lparr>task_id = next_id (tasks w), owner_id = owner, meta_id = meta, task_flow = flow,
               params = ps\<rparr>
      in (t, w\<lparr>tasks := (tasks w)\<lparr>rows := rows (tasks w) @ [t],
                                    next_id := Suc (next_id (tasks w))\<rparr>\<rparr>))"

definition get_task_flow :: string where
  "get_task_flow = ''flow.tasks.flow_default''"

text \<open>
  \<open>ReleaseImportMixin.get_task_params\<close>, the method that \<open>NVRImportSerializer\<close>
  inherits: it starts from the empty dict of \<open>ImportSerializer.get_task_params\<close>.
\<close>

definition get_task_params :: "import_data \<Rightarrow> pydict" where
  "get_task_params data =
     (let p0 = [];
          p1 = AList.update ''license_scan''
                 (PBool (case license_scan data of None \<Rightarrow> True | Some b \<Rightarrow> b)) p0;
          p2 = AList.update ''copyright_scan''
                 (PBool (case copyright_scan data of None \<Rightarrow> True | Some b \<Rightarrow> b)) p1;
          p3 = (case srpm_dir data of None \<Rightarrow> p2 | Some d \<Rightarrow> AList.update ''srpm_dir'' (PStr d) p2);
          p4 = (case product_release data of
                  None \<Rightarrow> p3
                | Some r \<Rightarrow> if r = [] then p3 else AList.update ''product_release'' (PStr r) p3)
      in p4)"

text \<open>\<open>dict(package_nvr=nvr, **params)\<close>, and \<open>NVRImportSerializer.get_tasks_params\<close>.\<close>

definition item_params :: "import_data \<Rightarrow> string \<Rightarrow> pydict" where
  "item_params data nvr = (''package_nvr'', PStr nvr) # get_task_params data"

definition get_tasks_params :: "import_data \<Rightarrow> (string \<times> pydict) list" where
  "get_tasks_params data = map (\<lambda>nvr. (nvr, item_params data nvr)) (package_nvrs data)"

text \<open>
  \<^verbatim>\<open>
  for key, task_params in self.get_tasks_params():
      params = copy.deepcopy(task_params)
      params['owner_id'] = user_id
      celery_task = app.send_task(task_flow, [params])
      task = Task.objects.create(owner_id=user_id, meta_id=celery_task.task_id,
                                 task_flow=task_flow, params=task_params)
      result[key] = {'task_id': task.id}
  \<close>
  The copy is a new value, so the assignment of \<open>owner_id\<close> leaves \<open>task_params\<close> as it is.
\<close>

fun fork_loop ::
  "(nat \<Rightarrow> string) \<Rightarrow> int \<Rightarrow> string \<Rightarrow> (string \<times> pydict) list
     \<Rightarrow> (string \<times> (string \<times> nat) list) list \<Rightarrow> world
     \<Rightarrow> (string \<times> (string \<times> nat) list) list \<times> world" where
  "fork_loop uuid user_id flow [] result w = (result, w)"
| "fork_loop uuid user_id flow ((key, task_params) # rest) result w =
     (let payload = AList.update ''owner_id'' (PInt user_id) task_params;
          (celery_task_id, w1) = send_task uuid flow [payload] w;
          (task, w2) = Task_objects_create user_id celery_task_id flow task_params w1
      in fork_loop uuid user_id flow rest
           (AList.update key [(''task_id'', task_id task)] result) w2)"

definition fork_import_tasks ::
  "(nat \<Rightarrow> string) \<Rightarrow> int \<Rightarrow> import_data \<Rightarrow> world
     \<Rightarrow> (string \<times> (string \<times> nat) list) list \<times> world" where
  "fork_import_tasks uuid user_id data w =
     fork_loop uuid user_id get_task_flow (get_tasks_params data) [] w"

text \<open>
  \<^verbatim>\<open>
  def release_validator(value):
      if value is not None:
          try:
              Release.objects.get(name=value)
          except Release.DoesNotExist:
              err_msg = 'Non-existent product release: %s' % value
              raise serializers.ValidationError(err_msg) from None
      return value
  \<close>
\<close>

definition release_validator :: "release list \<Rightarrow> string option \<Rightarrow> pyerror + string option" where
  "release_validator rels value =
     (case value of
        None \<Rightarrow> Inr None
      | Some v \<Rightarrow>
          (case objects_get (\<lambda>r. release_name r = v) rels of
             Inr r \<Rightarrow> Inr value
           | Inl e \<Rightarrow>
               if e = DoesNotExist
               then Inl (ValidationError [''Non-existent product release: '' @ v])
               else Inl e))"

text \<open>
  The field \<open>product_release\<close> is declared with \<open>allow_null=True\<close>, \<open>required=False\<close>,
  \<open>max_length=100\<close> and \<open>validators=[release_validator]\<close>. An absent or null value
  skips the validators. Otherwise the declared validator runs first, then the one for the
  maximal length; the messages of their ValidationErrors are collected and raised together,
  and any other exception leaves at once.
\<close>

definition validate_product_release ::
  "release list \<Rightarrow> string option \<Rightarrow> pyerror + string option" where
  "validate_product_release rels value =
     (case value of
        None \<Rightarrow> Inr None
      | Some v \<Rightarrow>
          (let too_long = (if 100 < length v
                           then [''Ensure this field has no more than 100 characters.'']
                           else [])
           in case release_validator rels (Some v) of
                Inr r \<Rightarrow> if too_long = [] then Inr (Some v) else Inl (ValidationError too_long)
              | Inl e \<Rightarrow>
                  (case e of
                     ValidationError msgs \<Rightarrow> Inl (ValidationError (msgs @ too_long))
                   | _ \<Rightarrow> Inl e)))"

definition run_validation :: "release list \<Rightarrow> import_data \<Rightarrow> pyerror + import_data" where
  "run_validation rels data =
     (case validate_product_release rels (product_release data) of
        Inl e \<Rightarrow> Inl e
      | Inr r \<Rightarrow> Inr data)"

text \<open>
  Modelled from the spec: validation is performed before submission. The view that calls
  the serializer is not among the sources; it validates the request data and, when they are
  valid, forks the import tasks for the requesting user.
\<close>

definition submit_batch ::
  "(nat \<Rightarrow> string) \<Rightarrow> int \<Rightarrow> import_data \<Rightarrow> world
     \<Rightarrow> (pyerror + (string \<times> (string \<times> nat) list) list) \<times> world" where
  "submit_batch uuid user_id data w =
     (case run_validation (rows (releases w)) data of
        Inl e \<Rightarrow> (Inl e, w)
      | Inr valid \<Rightarrow>
          (let (result, w') = fork_import_tasks uuid user_id valid w in (Inr result, w')))"

text \<open>A source of ids that never repeats, for the examples.\<close>

definition unary_id :: "nat \<Rightarrow> string" where
  "unary_id k = replicate (Suc k) CHR ''u''"



section \<open>Properties of the import serializers\<close>

















text \<open>
  Claim C2. When the request names a product release and no Release of the store has that
  name, \<open>release_validator\<close> raises the ValidationError for a non-existent release, the
  submission ends with a ValidationError that carries that message, and the world is the one
  before the call: no message has been published and no Task row has been created.
\<close>

theorem submit_batch_unknown_release:
  assumes "product_release data = Some v"
    and "\<forall>r\<in>set (rows (releases w)). release_name r \<noteq> v"
  shows "release_validator (rows (releases w)) (Some v)
           = Inl (ValidationError [''Non-existent product release: '' @ v])
       \<and> (\<exists>msgs. submit_batch uuid user_id data w = (Inl (ValidationError msgs), w)
             \<and> (''Non-existent product release: '' @ v) \<in> set msgs)"
proof -
  from assms(2) have "objects_get (\<lambda>r. release_name r = v) (rows (releases w)) = Inl DoesNotExist"
    by (intro objects_get_Nil) simp
  then have rv: "release_validator (rows (releases w)) (Some v)
           = Inl (ValidationError [''Non-existent product release: '' @ v])"
    by (simp add: release_validator_def)
  then have "\<exists>msgs. validate_product_release (rows (releases w)) (Some v) = Inl (ValidationError msgs)
      \<and> (''Non-existent product release: '' @ v) \<in> set msgs"
    by (simp add: validate_product_release_def Let_def)
  with assms(1) have "\<exists>msgs. submit_batch uuid user_id data w = (Inl (ValidationError msgs), w)
             \<and> (''Non-existent product release: '' @ v) \<in> set msgs"
    by (auto simp: submit_batch_def run_validation_def)
  with rv show ?thesis by blast
qed

theorem submit_batch_unknown_release_witness:
  "product_release
     \<lparr>license_scan = None, copyright_scan = None, srpm_dir = None,
      product_release = Some ''nope'', package_nvrs = [''a'', ''b'']\<rparr> = Some ''nope''
   \<and> list_all (\<lambda>r. release_name r \<noteq> ''nope'')
       [\<lparr>release_id = 1, release_product = 1, release_version = ''8.4'',
         release_name = ''rhel-8.4'', release_notes = None\<rparr>]
   \<and> (\<exists>msgs. submit_batch unary_id 7
         \<lparr>license_scan = None, copyright_scan = None, srpm_dir = None,
          product_release = Some ''nope'', package_nvrs = [''a'', ''b'']\<rparr>
         \<lparr>releases = \<lparr>rows = [\<lparr>release_id = 1, release_product = 1, release_version = ''8.4'',
                                  release_name = ''rhel-8.4'', release_notes = None\<rparr>],
                       next_id = 2\<rparr>,
          tasks = \<lparr>rows = [], next_id = 1\<rparr>, sent = []\<rparr>
       = (Inl (ValidationError msgs),
          \<lparr>releases = \<lparr>rows = [\<lparr>release_id = 1, release_product = 1, release_version = ''8.4'',
                                  release_name = ''rhel-8.4'', release_notes = None\<rparr>],
                       next_id = 2\<rparr>,
           tasks = \<lparr>rows = [], next_id = 1\<rparr>, sent = []\<rparr>))"
proof -
  let ?data = "\<lparr>license_scan = None, copyright_scan = None, srpm_dir = None,
      product_release = Some ''nope'', package_nvrs = [''a'', ''b'']\<rparr>"
  let ?r = "\<lparr>release_id = 1, release_product = 1, release_version = ''8.4'',
         release_name = ''rhel-8.4'', release_notes = None\<rparr>"
  let ?w = "\<lparr>releases = \<lparr>rows = [?r], next_id = 2\<rparr>,
          tasks = \<lparr>rows = [], next_id = 1\<rparr>, sent = []\<rparr>"
  have h1: "product_release ?data = Some ''nope''" by simp
  have h2: "\<forall>r\<in>set (rows (releases ?w)). release_name r \<noteq> ''nope''" by simp
  have l: "list_all (\<lambda>r. release_name r \<noteq> ''nope'') [?r]" by simp
  from submit_batch_unknown_release [OF h1 h2, of unary_id 7] h1 l show ?thesis by blast
qed

section \<open>libs/common.py: packing a source directory\<close>

text \<open>
  \<^verbatim>\<open>
  def compress_source_to_tarball(dest_file, src_dir):
      try:
          cmd = "tar -c  * | gzip -n > %s" % dest_file
          subprocess.check_call(cmd, shell=True, cwd=src_dir)
      except subprocess.CalledProcessError as e:
          raise RuntimeError(e) from None
      else:
          shutil.rmtree(src_dir)
  \<close>
  The file system is a tree of directories and files; a gzip-compressed tar file is
  represented by the list of its members. A path is the list of its components from the
  root, and \<open>dest_file\<close> is an absolute path.
\<close>

datatype entry = File string | Dir "(string \<times> entry) list" | TarGz "(string \<times> entry) list"

type_synonym path = "string list"

fun lookup :: "entry \<Rightarrow> path \<Rightarrow> entry option" where
  "lookup e [] = Some e"
| "lookup (Dir l) (n # p) = (case map_of l n of None \<Rightarrow> None | Some e \<Rightarrow> lookup e p)"
| "lookup e (n # p) = None"

text \<open>
  Opening a file for writing and writing it: the directory of the file must exist, and the
  path must not be a directory.
\<close>

fun write_file :: "entry \<Rightarrow> path \<Rightarrow> entry \<Rightarrow> entry option" where
  "write_file (Dir l) [n] new =
     (case map_of l n of
        Some (Dir sub) \<Rightarrow> None
      | _ \<Rightarrow> Some (Dir (AList.update n new l)))"
| "write_file (Dir l) (n # p) new =
     (case map_of l n of
        None \<Rightarrow> None
      | Some d \<Rightarrow>
          (case write_file d p new of
             None \<Rightarrow> None
           | Some d' \<Rightarrow> Some (Dir (AList.update n d' l))))"
| "write_file e p new = None"

text \<open>\<open>shutil.rmtree\<close>: the path must be a directory; it goes with all it holds.\<close>

fun rmtree :: "entry \<Rightarrow> path \<Rightarrow> entry option" where
  "rmtree (Dir l) [n] =
     (case map_of l n of
        Some (Dir sub) \<Rightarrow> Some (Dir (AList.delete n l))
      | _ \<Rightarrow> None)"
| "rmtree (Dir l) (n # p) =
     (case map_of l n of
        None \<Rightarrow> None
      | Some d \<Rightarrow>
          (case rmtree d p of
             None \<Rightarrow> None
           | Some d' \<Rightarrow> Some (Dir (AList.update n d' l))))"
| "rmtree e p = None"

text \<open>
  The shell's expansion of the pattern \<open>*\<close> in a directory: the names that do not start
  with a dot, in the order of the listing (which stands for the shell's sorted order); when
  there is none, the pattern itself stays as the word.
\<close>

definition glob_star :: "(string \<times> entry) list \<Rightarrow> string list" where
  "glob_star listing =
     (case filter (\<lambda>n. take 1 n \<noteq> ''.'') (map fst listing) of
        [] \<Rightarrow> [''*'']
      | names \<Rightarrow> names)"

text \<open>
  \<open>tar -c\<close> of the given names: each name found in the directory becomes a member, with
  all it holds; a name that is not found is reported, and the exit status is then 2.
\<close>

definition tar_c :: "(string \<times> entry) list \<Rightarrow> string list \<Rightarrow> (string \<times> entry) list \<times> nat" where
  "tar_c listing names =
     (List.map_filter (\<lambda>n. map_option (Pair n) (map_of listing n)) names,
      if list_all (\<lambda>n. map_of listing n \<noteq> None) names then 0 else 2)"

text \<open>
  The pipeline \<open>tar -c * | gzip -n > dest_file\<close> run in a directory with the given
  listing. When \<open>dest_file\<close> cannot be opened, gzip is not started and the status is 1.
  Otherwise gzip writes the compressed stream, and the status of the pipeline is the status
  of gzip, its last command: the status of tar is dropped.
\<close>

definition sh_tar_gzip :: "entry \<Rightarrow> (string \<times> entry) list \<Rightarrow> path \<Rightarrow> nat \<times> entry" where
  "sh_tar_gzip fs listing dest_file =
     (let (members, tar_status) = tar_c listing (glob_star listing)
      in case write_file fs dest_file (TarGz members) of
           None \<Rightarrow> (1, fs)
         | Some fs' \<Rightarrow> (0, fs'))"

text \<open>
  \<open>check_call\<close> with a \<open>cwd\<close> that is not a directory raises an OSError, which the
  handler for CalledProcessError does not catch; a nonzero status raises
  CalledProcessError, which the handler turns into RuntimeError.
\<close>

definition compress_source_to_tarball :: "path \<Rightarrow> path \<Rightarrow> entry \<Rightarrow> (pyerror + unit) \<times> entry" where
  "compress_source_to_tarball dest_file src_dir fs =
     (case lookup fs src_dir of
        Some (Dir listing) \<Rightarrow>
          (let (status, fs1) = sh_tar_gzip fs listing dest_file
           in if status \<noteq> 0 then (Inl RuntimeError, fs1)
              else (case rmtree fs1 src_dir of
                      None \<Rightarrow> (Inl OSError, fs1)
                    | Some fs2 \<Rightarrow> (Inr (), fs2)))
      | _ \<Rightarrow> (Inl OSError, fs))"

section \<open>Properties of packing\<close>

text \<open>
  Claim C6 at a source directory with a hidden file. The directory \<open>/work/src\<close> holds
  \<open>.gitignore\<close> and \<open>main.c\<close>. The pattern \<open>*\<close> does not match \<open>.gitignore\<close>, so the
  archive written to \<open>/out/src.tar.gz\<close> has the single member \<open>main.c\<close>; the call
  reports success and the source directory, with \<open>.gitignore\<close> in it, is deleted.
\<close>

theorem compress_source_to_tarball_drops_hidden_file:
  "compress_source_to_tarball [''out'', ''src.tar.gz''] [''work'', ''src'']
     (Dir [(''work'', Dir [(''src'', Dir [(''.gitignore'', File ''*.o''),
                                          (''main.c'', File ''int main;'')])]),
           (''out'', Dir [])])
   = (Inr (),
      Dir [(''work'', Dir []),
           (''out'', Dir [(''src.tar.gz'', TarGz [(''main.c'', File ''int main;'')])])])"
  by (simp add: compress_source_to_tarball_def sh_tar_gzip_def tar_c_def glob_star_def
      List.map_filter_simps)

text \<open>
  At a source directory that holds hidden files only, the word \<open>*\<close> names no file and tar
  fails; the status of the pipeline is that of gzip, so the call reports success, the
  archive is empty and the source directory is deleted.
\<close>

lemma compress_source_to_tarball_tar_failure_unnoticed:
  "compress_source_to_tarball [''out'', ''src.tar.gz''] [''work'', ''src'']
     (Dir [(''work'', Dir [(''src'', Dir [(''.gitignore'', File ''*.o'')])]),
           (''out'', Dir [])])
   = (Inr (),
      Dir [(''work'', Dir []),
           (''out'', Dir [(''src.tar.gz'', TarGz [])])])"
  by (simp add: compress_source_to_tarball_def sh_tar_gzip_def tar_c_def glob_star_def
      List.map_filter_simps)

text \<open>
  What the claim says about failure holds for a failure that the exit status shows: when
  the pipeline ends with a nonzero status, RuntimeError is raised and the file system is
  the one before the call, with the source directory in place.
\<close>

lemma compress_source_to_tarball_failure:
  assumes "lookup fs src_dir = Some (Dir listing)"
    and "write_file fs dest_file (TarGz (fst (tar_c listing (glob_star listing)))) = None"
  shows "compress_source_to_tarball dest_file src_dir fs = (Inl RuntimeError, fs)"
  using assms
  by (simp add: compress_source_to_tarball_def sh_tar_gzip_def split_beta)

end
